theory Spec2Isabelle
  imports Main
begin

section \<open>JSON values and Python dictionaries\<close>

text \<open>
  A parsed JSON document is what Python's \<^verbatim>\<open>json\<close> module returns: \<^verbatim>\<open>None\<close>, a
  \<^verbatim>\<open>bool\<close>, an \<^verbatim>\<open>int\<close>, a \<^verbatim>\<open>float\<close>, a \<^verbatim>\<open>str\<close>, a \<^verbatim>\<open>list\<close> or a \<^verbatim>\<open>dict\<close> with string
  keys. A finite float is kept as mantissa and binary exponent; only whether it is zero
  is ever observed. A \<^verbatim>\<open>dict\<close> is an association list in insertion order; a parsed
  document has pairwise different keys in each of its dictionaries.
\<close>

datatype json =
    JNull
  | JBool bool
  | JInt int
  | JFloat int int
  | JStr string
  | JList "json list"
  | JDict "(string \<times> json) list"

type_synonym pydict = "(string \<times> json) list"

datatype py_error = AttributeError | ValueError

text \<open>The values that are neither a mapping nor a list (strings are scalars).\<close>

fun is_scalar :: "json \<Rightarrow> bool" where
  "is_scalar (JList xs) = False"
| "is_scalar (JDict kvs) = False"
| "is_scalar v = True"

text \<open>Python's truth value of an object, as \<^verbatim>\<open>or\<close> and \<^verbatim>\<open>if\<close> test it.\<close>

fun truthy :: "json \<Rightarrow> bool" where
  "truthy JNull = False"
| "truthy (JBool b) = b"
| "truthy (JInt i) = (i \<noteq> 0)"
| "truthy (JFloat m e) = (m \<noteq> 0)"
| "truthy (JStr s) = (s \<noteq> [])"
| "truthy (JList xs) = (xs \<noteq> [])"
| "truthy (JDict kvs) = (kvs \<noteq> [])"

text \<open>\<^verbatim>\<open>k in d\<close>, \<^verbatim>\<open>d[k] = v\<close> and \<^verbatim>\<open>d.update(other)\<close> on an insertion-ordered dictionary:
  assigning to a key that is present replaces its value in place, assigning to a new key
  appends the entry.\<close>

fun has_key :: "pydict \<Rightarrow> string \<Rightarrow> bool" where
  "has_key [] k = False"
| "has_key ((k', v') # d) k = (k' = k \<or> has_key d k)"

fun dict_setitem :: "pydict \<Rightarrow> string \<Rightarrow> json \<Rightarrow> pydict" where
  "dict_setitem [] k v = [(k, v)]"
| "dict_setitem ((k', v') # d) k v =
     (if k' = k then (k, v) # d else (k', v') # dict_setitem d k v)"

fun dict_update :: "pydict \<Rightarrow> pydict \<Rightarrow> pydict" where
  "dict_update d [] = d"
| "dict_update d ((k, v) # other) = dict_update (dict_setitem d k v) other"

text \<open>\<^verbatim>\<open>o.get(k, default)\<close>: only a \<^verbatim>\<open>dict\<close> has the method; on any other JSON value the
  attribute lookup raises \<^verbatim>\<open>AttributeError\<close>.\<close>

fun py_get :: "json \<Rightarrow> string \<Rightarrow> json \<Rightarrow> py_error + json" where
  "py_get (JDict kvs) k dflt = Inr (case map_of kvs k of Some v \<Rightarrow> v | None \<Rightarrow> dflt)"
| "py_get v k dflt = Inl AttributeError"

text \<open>\<^verbatim>\<open>str(n)\<close> of a non-negative integer: its decimal digits.\<close>

definition digit_char :: "nat \<Rightarrow> char" where
  "digit_char d = ''0123456789'' ! d"

fun str_nat :: "nat \<Rightarrow> string" where
  "str_nat n = (if n < 10 then [digit_char n] else str_nat (n div 10) @ [digit_char (n mod 10)])"

declare str_nat.simps [simp del]

section \<open>The reusable flattener: \<^verbatim>\<open>src/core/flatten.py\<close>\<close>

text \<open>
  \<^verbatim>\<open>flatten(obj, parent_key='', sep='.')\<close>. The two \<^verbatim>\<open>for\<close> loops are the functions
  \<open>flatten_items\<close> (over \<^verbatim>\<open>obj.items()\<close>) and \<open>flatten_elems\<close> (over
  \<^verbatim>\<open>enumerate(obj, start=1)\<close>, carrying the position); both thread the local dictionary
  \<^verbatim>\<open>items\<close>. Keys of a parsed document are strings, so \<^verbatim>\<open>str(k)\<close> is \<^verbatim>\<open>k\<close>.
\<close>

fun flatten :: "json \<Rightarrow> string \<Rightarrow> string \<Rightarrow> pydict"
  and flatten_items :: "(string \<times> json) list \<Rightarrow> string \<Rightarrow> string \<Rightarrow> pydict \<Rightarrow> pydict"
  and flatten_elems :: "json list \<Rightarrow> nat \<Rightarrow> string \<Rightarrow> string \<Rightarrow> pydict \<Rightarrow> pydict"
where
  "flatten (JDict kvs) parent_key sep = flatten_items kvs parent_key sep []"
| "flatten (JList xs) parent_key sep = flatten_elems xs 1 parent_key sep []"
| "flatten v parent_key sep = [(parent_key, v)]"
| "flatten_items [] parent_key sep items = items"
| "flatten_items ((k, v) # kvs) parent_key sep items =
     flatten_items kvs parent_key sep
       (dict_update items
          (flatten v (if parent_key \<noteq> [] then parent_key @ sep @ k else k) sep))"
| "flatten_elems [] i parent_key sep items = items"
| "flatten_elems (v # xs) i parent_key sep items =
     flatten_elems xs (Suc i) parent_key sep
       (dict_update items
          (flatten v (if parent_key \<noteq> [] then parent_key @ ''_'' @ str_nat i else str_nat i) sep))"

text \<open>The call with the default arguments, \<^verbatim>\<open>flatten(obj)\<close>.\<close>

definition flatten_default :: "json \<Rightarrow> pydict" where
  "flatten_default obj = flatten obj [] ''.''"

text \<open>The number of scalar leaves of a value, and the leaves in traversal order, each
  with the flat path key the flattener computes for it (before any merging).\<close>

primrec leaf_count :: "json \<Rightarrow> nat"
  and leaf_count_elems :: "json list \<Rightarrow> nat"
  and leaf_count_items :: "(string \<times> json) list \<Rightarrow> nat"
  and leaf_count_item :: "string \<times> json \<Rightarrow> nat"
where
  "leaf_count JNull = 1"
| "leaf_count (JBool b) = 1"
| "leaf_count (JInt i) = 1"
| "leaf_count (JFloat m e) = 1"
| "leaf_count (JStr s) = 1"
| "leaf_count (JList xs) = leaf_count_elems xs"
| "leaf_count (JDict kvs) = leaf_count_items kvs"
| "leaf_count_elems [] = 0"
| "leaf_count_elems (v # xs) = leaf_count v + leaf_count_elems xs"
| "leaf_count_items [] = 0"
| "leaf_count_items (kv # kvs) = leaf_count_item kv + leaf_count_items kvs"
| "leaf_count_item (k, v) = leaf_count v"

fun leaf_paths :: "json \<Rightarrow> string \<Rightarrow> string \<Rightarrow> (string \<times> json) list"
  and leaf_paths_items :: "(string \<times> json) list \<Rightarrow> string \<Rightarrow> string \<Rightarrow> (string \<times> json) list"
  and leaf_paths_elems :: "json list \<Rightarrow> nat \<Rightarrow> string \<Rightarrow> string \<Rightarrow> (string \<times> json) list"
where
  "leaf_paths (JDict kvs) p sep = leaf_paths_items kvs p sep"
| "leaf_paths (JList xs) p sep = leaf_paths_elems xs 1 p sep"
| "leaf_paths v p sep = [(p, v)]"
| "leaf_paths_items [] p sep = []"
| "leaf_paths_items ((k, v) # kvs) p sep =
     leaf_paths v (if p \<noteq> [] then p @ sep @ k else k) sep @ leaf_paths_items kvs p sep"
| "leaf_paths_elems [] i p sep = []"
| "leaf_paths_elems (v # xs) i p sep =
     leaf_paths v (if p \<noteq> [] then p @ ''_'' @ str_nat i else str_nat i) sep
       @ leaf_paths_elems xs (Suc i) p sep"

text \<open>
  The flattening operation as the specification words it, on abstract mappings: a
  mapping merges the flattening of each field, under the path
  \<open>pathPrefix + separator + k\<close> (just \<open>k\<close> when the prefix is empty), into the
  accumulator; a sequence does so for the element at 1-based position \<open>i\<close> under
  \<open>pathPrefix + "_" + i\<close> (\<open>i\<close> alone when the prefix is empty); any other value
  is recorded under \<open>pathPrefix\<close>. Merging is \<open>++\<close>: the later write wins.
\<close>

fun spec_flatten :: "json \<Rightarrow> string \<Rightarrow> string \<Rightarrow> (string \<rightharpoonup> json)"
  and spec_flatten_fields ::
    "(string \<times> json) list \<Rightarrow> string \<Rightarrow> string \<Rightarrow> (string \<rightharpoonup> json) \<Rightarrow> (string \<rightharpoonup> json)"
  and spec_flatten_seq ::
    "json list \<Rightarrow> nat \<Rightarrow> string \<Rightarrow> string \<Rightarrow> (string \<rightharpoonup> json) \<Rightarrow> (string \<rightharpoonup> json)"
where
  "spec_flatten (JDict kvs) pathPrefix separator =
     spec_flatten_fields kvs pathPrefix separator Map.empty"
| "spec_flatten (JList xs) pathPrefix separator =
     spec_flatten_seq xs 1 pathPrefix separator Map.empty"
| "spec_flatten v pathPrefix separator = [pathPrefix \<mapsto> v]"
| "spec_flatten_fields [] pathPrefix separator acc = acc"
| "spec_flatten_fields ((k, v) # kvs) pathPrefix separator acc =
     spec_flatten_fields kvs pathPrefix separator
       (acc ++ spec_flatten v
                 (if pathPrefix = [] then k else pathPrefix @ separator @ k) separator)"
| "spec_flatten_seq [] i pathPrefix separator acc = acc"
| "spec_flatten_seq (v # xs) i pathPrefix separator acc =
     spec_flatten_seq xs (i + 1) pathPrefix separator
       (acc ++ spec_flatten v
                 (if pathPrefix = [] then str_nat i else pathPrefix @ ''_'' @ str_nat i)
                 separator)"

section \<open>The row assembler of \<^verbatim>\<open>src/apps/gui/email_scholarone_gui_app.py\<close>\<close>

text \<open>
  The closure \<^verbatim>\<open>_recurse(o, parent_key="")\<close> inside \<^verbatim>\<open>flatten_json\<close>: the flattener
  again, with the separator fixed to a dot.
\<close>

fun email_recurse :: "json \<Rightarrow> string \<Rightarrow> pydict"
  and email_recurse_items :: "(string \<times> json) list \<Rightarrow> string \<Rightarrow> pydict \<Rightarrow> pydict"
  and email_recurse_elems :: "json list \<Rightarrow> nat \<Rightarrow> string \<Rightarrow> pydict \<Rightarrow> pydict"
where
  "email_recurse (JDict kvs) parent_key = email_recurse_items kvs parent_key []"
| "email_recurse (JList xs) parent_key = email_recurse_elems xs 1 parent_key []"
| "email_recurse v parent_key = [(parent_key, v)]"
| "email_recurse_items [] parent_key items = items"
| "email_recurse_items ((k, v) # kvs) parent_key items =
     email_recurse_items kvs parent_key
       (dict_update items
          (email_recurse v (if parent_key \<noteq> [] then parent_key @ ''.'' @ k else k)))"
| "email_recurse_elems [] i parent_key items = items"
| "email_recurse_elems (v # xs) i parent_key items =
     email_recurse_elems xs (Suc i) parent_key
       (dict_update items
          (email_recurse v (if parent_key \<noteq> [] then parent_key @ ''_'' @ str_nat i else str_nat i)))"

text \<open>
  \<^verbatim>\<open>obj.get("Response", {}).get("result", {}).get("submission")\<close>, the expression the
  \<^verbatim>\<open>try\<close> block evaluates first; each \<^verbatim>\<open>.get\<close> may raise.
\<close>

definition email_submissions :: "json \<Rightarrow> py_error + json" where
  "email_submissions obj =
     (case py_get obj ''Response'' (JDict []) of
        Inl e \<Rightarrow> Inl e
      | Inr response \<Rightarrow>
          (case py_get response ''result'' (JDict []) of
             Inl e \<Rightarrow> Inl e
           | Inr result \<Rightarrow> py_get result ''submission'' JNull))"

definition email_row :: "string \<Rightarrow> json \<Rightarrow> pydict" where
  "email_row prefix item = dict_update [(''site_name'', JStr prefix)] (email_recurse item [])"

text \<open>
  \<^verbatim>\<open>flatten_json(obj, prefix)\<close>. Inside the \<^verbatim>\<open>try\<close> only the lookups can raise (the loop
  body cannot), so \<^verbatim>\<open>except Exception: pass\<close> is reached with no row appended yet and
  falls through to the fallback, as a \<^verbatim>\<open>submission\<close> that is not a list does.
\<close>

definition email_flatten_json :: "json \<Rightarrow> string \<Rightarrow> pydict list" where
  "email_flatten_json obj prefix =
     (case email_submissions obj of
        Inr (JList submissions) \<Rightarrow> map (email_row prefix) submissions
      | _ \<Rightarrow> [email_row prefix obj])"

section \<open>The row assembler of \<^verbatim>\<open>src/apps/gui/scholarone_gui_app.py\<close>\<close>

text \<open>\<^verbatim>\<open>sep.join(path)\<close>.\<close>

fun join_str :: "string \<Rightarrow> string list \<Rightarrow> string" where
  "join_str sep [] = []"
| "join_str sep [x] = x"
| "join_str sep (x # y # ys) = x @ sep @ join_str sep (y # ys)"

text \<open>The key of a leaf before the collision check: the dotted path, and the suffix
  \<^verbatim>\<open>_{index+1}\<close> when \<^verbatim>\<open>index\<close> is not \<^verbatim>\<open>None\<close>.\<close>

definition flat_key_of :: "string list \<Rightarrow> nat option \<Rightarrow> string" where
  "flat_key_of path index =
     (case index of
        None \<Rightarrow> join_str ''.'' path
      | Some i \<Rightarrow> join_str ''.'' path @ ''_'' @ str_nat (i + 1))"

text \<open>
  The loop \<^verbatim>\<open>while f"{flat_key}_{suffix}" in flat: suffix += 1\<close>. It ends because
  \<^verbatim>\<open>flat\<close> is finite and different numbers have different decimal digits; the three
  lemmas below are what the termination proof needs.
\<close>

definition digit_val :: "char \<Rightarrow> nat" where
  "digit_val c = of_char c - 48"

lemma digit_val_digit_char: "d < 10 \<Longrightarrow> digit_val (digit_char d) = d"
proof -
  assume "d < 10"
  then have "d \<in> {0, 1, 2, 3, 4, 5, 6, 7, 8, 9}" by auto
  then show ?thesis by (auto simp: digit_val_def digit_char_def)
qed

lemma nat_of_str_nat: "foldl (\<lambda>a c. 10 * a + digit_val c) 0 (str_nat n) = n"
proof (induction n rule: str_nat.induct)
  case (1 n)
  show ?case
  proof (cases "n < 10")
    case True
    then show ?thesis by (simp add: str_nat.simps [of n] digit_val_digit_char)
  next
    case False
    then show ?thesis using 1 by (simp add: str_nat.simps [of n] digit_val_digit_char)
  qed
qed

lemma str_nat_inj: "str_nat m = str_nat n \<Longrightarrow> m = n"
proof -
  assume "str_nat m = str_nat n"
  then have "foldl (\<lambda>a c. 10 * a + digit_val c) 0 (str_nat m)
      = foldl (\<lambda>a c. 10 * a + digit_val c) 0 (str_nat n)"
    by (rule arg_cong)
  then show ?thesis by (simp only: nat_of_str_nat)
qed

lemma filter_length_mono:
  "(\<And>x. P x \<Longrightarrow> Q x) \<Longrightarrow> length (filter P xs) \<le> length (filter Q xs)"
  by (induction xs) auto

lemma filter_length_strict:
  "(\<And>x. P x \<Longrightarrow> Q x) \<Longrightarrow> x \<in> set xs \<Longrightarrow> Q x \<Longrightarrow> \<not> P x
    \<Longrightarrow> length (filter P xs) < length (filter Q xs)"
proof (induction xs)
  case Nil
  then show ?case by simp
next
  case (Cons y ys)
  have m: "length (filter P ys) \<le> length (filter Q ys)"
    using Cons.prems(1) by (rule filter_length_mono)
  show ?case
  proof (cases "x = y")
    case True
    then show ?thesis using Cons.prems m by simp
  next
    case False
    then have "length (filter P ys) < length (filter Q ys)"
      using Cons by simp
    then show ?thesis using Cons.prems(1) by auto
  qed
qed

lemma has_key_iff: "has_key d k \<longleftrightarrow> k \<in> set (map fst d)"
  by (induction d k rule: has_key.induct) auto

function find_suffix :: "pydict \<Rightarrow> string \<Rightarrow> nat \<Rightarrow> nat" where
  "find_suffix flat flat_key suffix =
     (if has_key flat (flat_key @ ''_'' @ str_nat suffix)
      then find_suffix flat flat_key (suffix + 1)
      else suffix)"
  by pat_completeness auto
termination
proof (relation "measure (\<lambda>(flat, flat_key, suffix).
          length (filter (\<lambda>k. \<exists>t\<ge>suffix. k = flat_key @ ''_'' @ str_nat t) (map fst flat)))")
  show "wf (measure (\<lambda>(flat, flat_key, suffix).
          length (filter (\<lambda>k. \<exists>t\<ge>suffix. k = flat_key @ ''_'' @ str_nat t) (map fst flat))))"
    by simp
next
  fix flat :: pydict and flat_key :: string and suffix :: nat
  assume h: "has_key flat (flat_key @ ''_'' @ str_nat suffix)"
  let ?k = "flat_key @ ''_'' @ str_nat suffix"
  have "length (filter (\<lambda>k. \<exists>t\<ge>suffix + 1. k = flat_key @ ''_'' @ str_nat t) (map fst flat))
      < length (filter (\<lambda>k. \<exists>t\<ge>suffix. k = flat_key @ ''_'' @ str_nat t) (map fst flat))"
  proof (rule filter_length_strict [where x = ?k])
    show "?k \<in> set (map fst flat)" using h by (simp add: has_key_iff)
    show "\<exists>t\<ge>suffix. ?k = flat_key @ ''_'' @ str_nat t" by blast
    show "\<not> (\<exists>t\<ge>suffix + 1. ?k = flat_key @ ''_'' @ str_nat t)"
      by (auto dest: str_nat_inj)
    show "\<And>x. \<exists>t\<ge>suffix + 1. x = flat_key @ ''_'' @ str_nat t \<Longrightarrow>
        \<exists>t\<ge>suffix. x = flat_key @ ''_'' @ str_nat t"
      by (metis add_leD1)
  qed
  then show "((flat, flat_key, suffix + 1), (flat, flat_key, suffix))
    \<in> measure (\<lambda>(flat, flat_key, suffix).
          length (filter (\<lambda>k. \<exists>t\<ge>suffix. k = flat_key @ ''_'' @ str_nat t) (map fst flat)))"
    by simp
qed

declare find_suffix.simps [simp del]

text \<open>The \<^verbatim>\<open>else\<close> branch of \<^verbatim>\<open>recurse\<close>: compute the key, disambiguate it when it is
  present, and assign.\<close>

definition store_leaf :: "json \<Rightarrow> string list \<Rightarrow> nat option \<Rightarrow> pydict \<Rightarrow> pydict" where
  "store_leaf v path index flat =
     (let flat_key = flat_key_of path index;
          flat_key = (if has_key flat flat_key
                      then flat_key @ ''_'' @ str_nat (find_suffix flat flat_key 2)
                      else flat_key)
      in dict_setitem flat flat_key v)"

text \<open>
  The closure \<^verbatim>\<open>recurse(o, path=None, index=None)\<close>; the dictionary \<^verbatim>\<open>flat\<close> of the
  enclosing function, which it mutates, is passed and returned. Every call gives a path,
  so the \<^verbatim>\<open>None\<close> default is never taken. The call for a field gives no index (the
  default \<^verbatim>\<open>None\<close>); the call for a list element keeps the path and gives the 0-based
  position.
\<close>

fun recurse :: "json \<Rightarrow> string list \<Rightarrow> nat option \<Rightarrow> pydict \<Rightarrow> pydict"
  and recurse_items :: "(string \<times> json) list \<Rightarrow> string list \<Rightarrow> pydict \<Rightarrow> pydict"
  and recurse_elems :: "json list \<Rightarrow> nat \<Rightarrow> string list \<Rightarrow> pydict \<Rightarrow> pydict"
where
  "recurse (JDict kvs) path index flat = recurse_items kvs path flat"
| "recurse (JList xs) path index flat = recurse_elems xs 0 path flat"
| "recurse v path index flat = store_leaf v path index flat"
| "recurse_items [] path flat = flat"
| "recurse_items ((k, v) # kvs) path flat =
     recurse_items kvs path (recurse v (path @ [k]) None flat)"
| "recurse_elems [] i path flat = flat"
| "recurse_elems (item # xs) i path flat =
     recurse_elems xs (Suc i) path (recurse item path (Some i) flat)"

text \<open>
  The envelope lookup
  \<^verbatim>\<open>obj.get("Response", {}).get("result", {}).get("submission")
     or obj.get("Response", {}).get("result", {}) or obj.get("result", {})\<close>:
  \<^verbatim>\<open>or\<close> yields its first truthy operand, otherwise its last, and evaluates no operand
  after the one it yields. No \<^verbatim>\<open>try\<close> surrounds it.
\<close>

definition envelope_result :: "json \<Rightarrow> py_error + json" where
  "envelope_result obj =
     (case py_get obj ''Response'' (JDict []) of
        Inl e \<Rightarrow> Inl e
      | Inr response \<Rightarrow> py_get response ''result'' (JDict []))"

definition envelope_content :: "json \<Rightarrow> py_error + json" where
  "envelope_content obj =
     (case envelope_result obj of
        Inl e \<Rightarrow> Inl e
      | Inr result \<Rightarrow>
          (case py_get result ''submission'' JNull of
             Inl e \<Rightarrow> Inl e
           | Inr submission \<Rightarrow>
               if truthy submission then Inr submission
               else (case envelope_result obj of
                       Inl e \<Rightarrow> Inl e
                     | Inr result' \<Rightarrow>
                         if truthy result' then Inr result'
                         else py_get obj ''result'' (JDict []))))"

text \<open>\<^verbatim>\<open>flatten_json(obj, prefix)\<close>: one fresh \<^verbatim>\<open>flat = {"site_name": prefix}\<close> per
  row.\<close>

definition flatten_json :: "json \<Rightarrow> string \<Rightarrow> py_error + pydict list" where
  "flatten_json obj prefix =
     (case envelope_content obj of
        Inl e \<Rightarrow> Inl e
      | Inr (JList content) \<Rightarrow>
          Inr (map (\<lambda>item. recurse item [] None [(''site_name'', JStr prefix)]) content)
      | Inr content \<Rightarrow> Inr [recurse obj [] None [(''site_name'', JStr prefix)]])"

section \<open>Batch planning in \<^verbatim>\<open>submit_request\<close> and \<^verbatim>\<open>run_query\<close>\<close>

text \<open>\<^verbatim>\<open>range(i, stop, step)\<close> for a positive step, and the slice \<^verbatim>\<open>ids[i:i+n]\<close>.\<close>

function py_range :: "nat \<Rightarrow> nat \<Rightarrow> nat \<Rightarrow> nat list" where
  "py_range i stop step =
     (if 0 < step \<and> i < stop then i # py_range (i + step) stop step else [])"
  by pat_completeness auto
termination
  by (relation "measure (\<lambda>(i, stop, step). stop - i)") auto

declare py_range.simps [simp del]

definition py_slice :: "'a list \<Rightarrow> nat \<Rightarrow> nat \<Rightarrow> 'a list" where
  "py_slice xs i j = take (j - i) (drop i xs)"

text \<open>
  \<^verbatim>\<open>[ids[i:i+n] for i in range(0, len(ids), n)]\<close>. A step of zero makes \<^verbatim>\<open>range\<close> raise
  \<^verbatim>\<open>ValueError\<close>; with a negative step the range from 0 is empty. A batch holds
  identifiers or the \<^verbatim>\<open>None\<close> of the sentinel.
\<close>

definition chunk_ids :: "string list \<Rightarrow> int \<Rightarrow> py_error + string option list list" where
  "chunk_ids ids n =
     (if n = 0 then Inl ValueError
      else if n < 0 then Inr []
      else Inr (map (\<lambda>i. map Some (py_slice ids i (i + nat n)))
                  (py_range 0 (length ids) (nat n))))"

text \<open>\<^verbatim>\<open>id_kind and ids\<close>: the endpoint's \<^verbatim>\<open>id_kind\<close> is a string or \<^verbatim>\<open>None\<close>.\<close>

definition truthy_kind :: "string option \<Rightarrow> bool" where
  "truthy_kind id_kind = (case id_kind of None \<Rightarrow> False | Some s \<Rightarrow> s \<noteq> [])"

text \<open>\<^verbatim>\<open>run_query\<close> of the e-mail variant, with \<^verbatim>\<open>batch_size\<close> from the endpoint
  configuration, and \<^verbatim>\<open>submit_request\<close> with its fixed 25.\<close>

definition run_query_batches ::
  "string option \<Rightarrow> string list \<Rightarrow> int \<Rightarrow> py_error + string option list list" where
  "run_query_batches id_kind id_values batch_size =
     (if truthy_kind id_kind \<and> id_values \<noteq> [] then chunk_ids id_values batch_size
      else Inr [[None]])"

definition submit_request_batches ::
  "string option \<Rightarrow> string list \<Rightarrow> py_error + string option list list" where
  "submit_request_batches id_kind ids =
     (if truthy_kind id_kind \<and> ids \<noteq> [] then chunk_ids ids 25 else Inr [[None]])"

section \<open>Dictionary operations\<close>

lemma keys_dict_setitem: "set (map fst (dict_setitem d k v)) = insert k (set (map fst d))"
  by (induction d k v rule: dict_setitem.induct) auto

lemma distinct_dict_setitem:
  "distinct (map fst d) \<Longrightarrow> distinct (map fst (dict_setitem d k v))"
  by (induction d k v rule: dict_setitem.induct) (auto simp: keys_dict_setitem simp del: set_map)

lemma map_of_dict_setitem: "map_of (dict_setitem d k v) = (map_of d)(k \<mapsto> v)"
  by (induction d k v rule: dict_setitem.induct) auto

lemma values_dict_setitem: "set (map snd (dict_setitem d k v)) \<subseteq> insert v (set (map snd d))"
  by (induction d k v rule: dict_setitem.induct) auto

lemma keys_dict_update: "set (map fst (dict_update d e)) = set (map fst d) \<union> set (map fst e)"
  by (induction d e rule: dict_update.induct) (auto simp: keys_dict_setitem simp del: set_map)

lemma distinct_dict_update:
  "distinct (map fst d) \<Longrightarrow> distinct (map fst (dict_update d e))"
  by (induction d e rule: dict_update.induct) (auto simp: distinct_dict_setitem)

lemma values_dict_update: "set (map snd (dict_update d e)) \<subseteq> set (map snd d) \<union> set (map snd e)"
proof (induction d e rule: dict_update.induct)
  case (1 d)
  then show ?case by simp
next
  case (2 d k v other)
  have "set (map snd (dict_setitem d k v)) \<subseteq> insert v (set (map snd d))"
    by (rule values_dict_setitem)
  with 2 show ?case by auto
qed

lemma map_of_dict_update:
  "distinct (map fst e) \<Longrightarrow> map_of (dict_update d e) = map_of d ++ map_of e"
proof (induction d e rule: dict_update.induct)
  case (1 d)
  then show ?case by simp
next
  case (2 d k v other)
  then have "map_of other k = None"
    by (simp add: map_of_eq_None_iff)
  with 2 show ?case
    by (auto simp: map_of_dict_setitem map_add_def fun_eq_iff split: option.splits)
qed

section \<open>Properties of the reusable flattener\<close>

subsection \<open>Values, keys and the abstract mapping\<close>

lemma flatten_scalar_values:
  "\<forall>x \<in> set (flatten v p sep). is_scalar (snd x)"
  "(\<forall>x \<in> set items. is_scalar (snd x)) \<Longrightarrow>
     \<forall>x \<in> set (flatten_items kvs p sep items). is_scalar (snd x)"
  "(\<forall>x \<in> set items. is_scalar (snd x)) \<Longrightarrow>
     \<forall>x \<in> set (flatten_elems xs i p sep items). is_scalar (snd x)"
proof (induction v p sep and kvs p sep items and xs i p sep items
    rule: flatten_flatten_items_flatten_elems.induct)
  case (5 k v kvs parent_key sep items)
  let ?e = "flatten v (if parent_key \<noteq> [] then parent_key @ sep @ k else k) sep"
  have "\<forall>x \<in> set (dict_update items ?e). is_scalar (snd x)"
    using values_dict_update [of items ?e] 5(1) 5(3) by fastforce
  then show ?case using 5(2) by simp
next
  case (7 v xs i parent_key sep items)
  let ?e = "flatten v (if parent_key \<noteq> [] then parent_key @ ''_'' @ str_nat i else str_nat i) sep"
  have "\<forall>x \<in> set (dict_update items ?e). is_scalar (snd x)"
    using values_dict_update [of items ?e] 7(1) 7(3) by fastforce
  then show ?case using 7(2) by simp
qed simp_all

lemma flatten_refines:
  "map_of (flatten v p sep) = spec_flatten v p sep \<and> distinct (map fst (flatten v p sep))"
  "distinct (map fst items) \<Longrightarrow>
     map_of (flatten_items kvs p sep items) = spec_flatten_fields kvs p sep (map_of items)
     \<and> distinct (map fst (flatten_items kvs p sep items))"
  "distinct (map fst items) \<Longrightarrow>
     map_of (flatten_elems xs i p sep items) = spec_flatten_seq xs i p sep (map_of items)
     \<and> distinct (map fst (flatten_elems xs i p sep items))"
proof (induction v p sep and kvs p sep items and xs i p sep items
    rule: flatten_flatten_items_flatten_elems.induct)
  case (5 k v kvs parent_key sep items)
  let ?e = "flatten v (if parent_key \<noteq> [] then parent_key @ sep @ k else k) sep"
  have d: "distinct (map fst (dict_update items ?e))"
    using 5(3) by (rule distinct_dict_update)
  have m: "map_of (dict_update items ?e) = map_of items ++ map_of ?e"
    using 5(1) by (intro map_of_dict_update) simp
  show ?case using 5(2) [OF d] 5(1) m by auto
next
  case (7 v xs i parent_key sep items)
  let ?e = "flatten v (if parent_key \<noteq> [] then parent_key @ ''_'' @ str_nat i else str_nat i) sep"
  have d: "distinct (map fst (dict_update items ?e))"
    using 7(3) by (rule distinct_dict_update)
  have m: "map_of (dict_update items ?e) = map_of items ++ map_of ?e"
    using 7(1) by (intro map_of_dict_update) simp
  show ?case using 7(2) [OF d] 7(1) m by auto
qed simp_all

lemma flatten_keys:
  "set (map fst (flatten v p sep)) = set (map fst (leaf_paths v p sep))"
  "set (map fst (flatten_items kvs p sep items)) =
     set (map fst items) \<union> set (map fst (leaf_paths_items kvs p sep))"
  "set (map fst (flatten_elems xs i p sep items)) =
     set (map fst items) \<union> set (map fst (leaf_paths_elems xs i p sep))"
proof (induction v p sep and kvs p sep items and xs i p sep items
    rule: flatten_flatten_items_flatten_elems.induct)
  case (5 k v kvs parent_key sep items)
  show ?case using 5 by (simp add: keys_dict_update Un_assoc del: set_map)
next
  case (7 v xs i parent_key sep items)
  show ?case using 7 by (simp add: keys_dict_update Un_assoc del: set_map)
qed simp_all

lemma length_leaf_paths:
  "length (leaf_paths v p sep) = leaf_count v"
  "length (leaf_paths_items kvs p sep) = leaf_count_items kvs"
  "length (leaf_paths_elems xs i p sep) = leaf_count_elems xs"
  by (induction v p sep and kvs p sep and xs i p sep
      rule: leaf_paths_leaf_paths_items_leaf_paths_elems.induct) simp_all

lemma spec_flatten_last_leaf:
  "spec_flatten v p sep = map_of (rev (leaf_paths v p sep))"
  "spec_flatten_fields kvs p sep acc = acc ++ map_of (rev (leaf_paths_items kvs p sep))"
  "spec_flatten_seq xs i p sep acc = acc ++ map_of (rev (leaf_paths_elems xs i p sep))"
proof (induction v p sep and kvs p sep acc and xs i p sep acc
    rule: spec_flatten_spec_flatten_fields_spec_flatten_seq.induct)
  case (5 k v kvs pathPrefix separator acc)
  show ?case using 5 by (simp add: map_add_assoc)
next
  case (7 v xs i pathPrefix separator acc)
  show ?case using 7 by (simp add: map_add_assoc)
qed simp_all

subsection \<open>Leaf count\<close>

text \<open>
  C3, as stated, fails: the fields \<^verbatim>\<open>{"a": [1], "a_1": 2}\<close> have two scalar leaves, both
  with the flat path key \<^verbatim>\<open>a_1\<close>, and the later write wins, so the result has one entry.
\<close>

theorem flatten_leaf_count_counterexample:
  "length (flatten_default (JDict [(''a'', JList [JInt 1]), (''a_1'', JInt 2)]))
     \<noteq> leaf_count (JDict [(''a'', JList [JInt 1]), (''a_1'', JInt 2)])"
  by (simp add: flatten_default_def str_nat.simps digit_char_def)

text \<open>
  C3, amended: the number of entries of \<open>flatten v\<close> is the number of different flat
  path keys among the scalar leaves of \<open>v\<close>; it is at most the number of scalar leaves,
  and equal to it exactly when no two leaves have the same flat path key. Where leaves
  share a key the later write wins: the value under a key is that of the last leaf, in
  traversal order, with that key (the merge \<open>++\<close> of \<open>spec_flatten\<close>), so
  \<^verbatim>\<open>{"a": [1], "a_1": 2}\<close> gives the one entry \<^verbatim>\<open>a_1 = 2\<close>. The specification's example
  \<^verbatim>\<open>{"a": [1, {"b": 2}]}\<close> has the two entries \<^verbatim>\<open>a_1 = 1\<close> and \<^verbatim>\<open>a_2.b = 2\<close>.
\<close>

theorem flatten_entries_leaf_paths:
  "length (flatten v p sep) = card (set (map fst (leaf_paths v p sep)))
   \<and> length (leaf_paths v p sep) = leaf_count v
   \<and> length (flatten v p sep) \<le> leaf_count v
   \<and> (length (flatten v p sep) = leaf_count v \<longleftrightarrow> distinct (map fst (leaf_paths v p sep)))
   \<and> distinct (map fst (flatten v p sep))
   \<and> map_of (flatten v p sep) = map_of (rev (leaf_paths v p sep))
   \<and> map_of (flatten v p sep) = spec_flatten v p sep
   \<and> flatten_default (JDict [(''a'', JList [JInt 1]), (''a_1'', JInt 2)])
       = [(''a_1'', JInt 2)]
   \<and> flatten_default (JDict [(''a'', JList [JInt 1, JDict [(''b'', JInt 2)]])])
       = [(''a_1'', JInt 1), (''a_2.b'', JInt 2)]"
proof -
  let ?ks = "map fst (leaf_paths v p sep)"
  have d: "distinct (map fst (flatten v p sep))"
    using flatten_refines(1) by blast
  then have "card (set (map fst (flatten v p sep))) = length (map fst (flatten v p sep))"
    by (rule distinct_card)
  then have a: "length (flatten v p sep) = card (set ?ks)"
    using flatten_keys(1) [of v p sep] by simp
  have l: "length ?ks = leaf_count v"
    by (simp add: length_leaf_paths)
  have b: "card (set ?ks) \<le> length ?ks"
    by (rule card_length)
  have c: "card (set ?ks) = length ?ks \<longleftrightarrow> distinct ?ks"
    using card_distinct distinct_card by blast
  have m: "map_of (flatten v p sep) = spec_flatten v p sep"
    using flatten_refines(1) by blast
  have w: "map_of (flatten v p sep) = map_of (rev (leaf_paths v p sep))"
    using m by (simp add: spec_flatten_last_leaf(1))
  have o: "flatten_default (JDict [(''a'', JList [JInt 1]), (''a_1'', JInt 2)])
       = [(''a_1'', JInt 2)]"
    by (simp add: flatten_default_def str_nat.simps digit_char_def)
  have e: "flatten_default (JDict [(''a'', JList [JInt 1, JDict [(''b'', JInt 2)]])])
       = [(''a_1'', JInt 1), (''a_2.b'', JInt 2)]"
    by (simp add: flatten_default_def str_nat.simps digit_char_def)
  have n: "length (flatten v p sep) = card (set ?ks)
     \<and> length (leaf_paths v p sep) = leaf_count v
     \<and> length (flatten v p sep) \<le> leaf_count v
     \<and> (length (flatten v p sep) = leaf_count v \<longleftrightarrow> distinct ?ks)"
    using a b c l by simp
  show ?thesis using n d w m o e by blast
qed

theorem flatten_entries_leaf_paths_witness:
  "distinct (map fst (leaf_paths (JDict [(''a'', JList [JInt 1, JDict [(''b'', JInt 2)]])]) [] ''.''))
   \<and> length (flatten (JDict [(''a'', JList [JInt 1, JDict [(''b'', JInt 2)]])]) [] ''.'')
       = leaf_count (JDict [(''a'', JList [JInt 1, JDict [(''b'', JInt 2)]])])
   \<and> map_of (flatten (JDict [(''a'', JList [JInt 1]), (''a_1'', JInt 2)]) [] ''.'') ''a_1''
       = Some (JInt 2)"
proof -
  have d: "distinct (map fst (leaf_paths (JDict [(''a'', JList [JInt 1, JDict [(''b'', JInt 2)]])]) [] ''.''))"
    by (simp add: str_nat.simps digit_char_def)
  have r: "map_of (rev (leaf_paths (JDict [(''a'', JList [JInt 1]), (''a_1'', JInt 2)]) [] ''.'')) ''a_1''
       = Some (JInt 2)"
    by (simp add: str_nat.simps digit_char_def)
  from flatten_entries_leaf_paths
    [of "JDict [(''a'', JList [JInt 1, JDict [(''b'', JInt 2)]])]" "[]" "''.''"] d
  have x: "length (flatten (JDict [(''a'', JList [JInt 1, JDict [(''b'', JInt 2)]])]) [] ''.'')
       = leaf_count (JDict [(''a'', JList [JInt 1, JDict [(''b'', JInt 2)]])])"
    by blast
  from flatten_entries_leaf_paths
    [of "JDict [(''a'', JList [JInt 1]), (''a_1'', JInt 2)]" "[]" "''.''"] r
  have y: "map_of (flatten (JDict [(''a'', JList [JInt 1]), (''a_1'', JInt 2)]) [] ''.'') ''a_1''
       = Some (JInt 2)"
    by simp
  show ?thesis using d x y by blast
qed

subsection \<open>The recursion of the specification\<close>

text \<open>
  C4: \<open>flatten\<close> follows the recursion the specification gives. Read as a mapping,
  its result is \<open>spec_flatten\<close> of the same arguments, and no key occurs twice in it;
  an empty mapping and an empty sequence contribute no key.
\<close>

theorem flatten_follows_spec:
  "map_of (flatten v pathPrefix separator) = spec_flatten v pathPrefix separator
   \<and> distinct (map fst (flatten v pathPrefix separator))
   \<and> flatten (JDict []) pathPrefix separator = []
   \<and> flatten (JList []) pathPrefix separator = []"
  using flatten_refines(1) [of v pathPrefix separator] by simp

subsection \<open>Totality\<close>

text \<open>
  C7: \<open>flatten\<close> is a total function on JSON values (its termination is part of its
  definition), and every value of the mapping it returns is a scalar: none is a
  mapping or a list.
\<close>

theorem flatten_values_scalar:
  "\<forall>x \<in> set (flatten v parent_key sep). is_scalar (snd x)"
  by (rule flatten_scalar_values(1))

theorem flatten_values_scalar_witness:
  "(''a_2.b'', JInt 2)
     \<in> set (flatten (JDict [(''a'', JList [JInt 1, JDict [(''b'', JInt 2)]])]) [] ''.'')
   \<and> is_scalar (snd (''a_2.b'', JInt 2))"
proof -
  have m: "(''a_2.b'', JInt 2)
     \<in> set (flatten (JDict [(''a'', JList [JInt 1, JDict [(''b'', JInt 2)]])]) [] ''.'')"
    by (simp add: str_nat.simps digit_char_def)
  from flatten_values_scalar m have "is_scalar (snd (''a_2.b'', JInt 2))"
    by blast
  with m show ?thesis by blast
qed

subsection \<open>A scalar at the top level\<close>

text \<open>
  C10: for a scalar \<open>v\<close>, \<open>flatten v\<close> with the default empty path prefix is the
  mapping with the single key \<^verbatim>\<open>''\<close> (the empty string) and the value \<open>v\<close>.
\<close>

theorem flatten_top_level_scalar:
  "is_scalar v \<Longrightarrow> flatten_default v = [([], v)]"
  by (cases v) (simp_all add: flatten_default_def)

theorem flatten_top_level_scalar_witness:
  "is_scalar (JStr ''bar'') \<and> flatten_default (JStr ''bar'') = [([], JStr ''bar'')]"
  using flatten_top_level_scalar [of "JStr ''bar''"] by simp

section \<open>Properties of the disambiguating flattener\<close>

subsection \<open>The suffix search and the assignment\<close>

lemma dict_setitem_absent: "\<not> has_key d k \<Longrightarrow> dict_setitem d k v = d @ [(k, v)]"
  by (induction d k v rule: dict_setitem.induct) auto

lemma has_key_append: "has_key (d @ e) k \<longleftrightarrow> has_key d k \<or> has_key e k"
  by (simp add: has_key_iff)

lemma find_suffix_least:
  "s0 \<le> find_suffix flat k s0
   \<and> \<not> has_key flat (k @ ''_'' @ str_nat (find_suffix flat k s0))
   \<and> (\<forall>t. s0 \<le> t \<and> t < find_suffix flat k s0 \<longrightarrow> has_key flat (k @ ''_'' @ str_nat t))"
proof (induction flat k s0 rule: find_suffix.induct)
  case (1 flat k s0)
  show ?case
  proof (cases "has_key flat (k @ ''_'' @ str_nat s0)")
    case True
    then have eq: "find_suffix flat k s0 = find_suffix flat k (s0 + 1)"
      by (simp add: find_suffix.simps [of flat k s0])
    have ih: "s0 + 1 \<le> find_suffix flat k (s0 + 1)
       \<and> \<not> has_key flat (k @ ''_'' @ str_nat (find_suffix flat k (s0 + 1)))
       \<and> (\<forall>t. s0 + 1 \<le> t \<and> t < find_suffix flat k (s0 + 1)
             \<longrightarrow> has_key flat (k @ ''_'' @ str_nat t))"
      using 1 True by simp
    have "\<forall>t. s0 \<le> t \<and> t < find_suffix flat k (s0 + 1) \<longrightarrow> has_key flat (k @ ''_'' @ str_nat t)"
    proof (intro allI impI)
      fix t
      assume t: "s0 \<le> t \<and> t < find_suffix flat k (s0 + 1)"
      show "has_key flat (k @ ''_'' @ str_nat t)"
      proof (cases "t = s0")
        case True
        then show ?thesis using \<open>has_key flat (k @ ''_'' @ str_nat s0)\<close> by simp
      next
        case False
        then have "s0 + 1 \<le> t" using t by simp
        then show ?thesis using ih t by blast
      qed
    qed
    then show ?thesis using ih eq by simp
  next
    case False
    then have "find_suffix flat k s0 = s0"
      by (simp add: find_suffix.simps [of flat k s0])
    then show ?thesis using False by auto
  qed
qed

lemma store_leaf_absent:
  "\<not> has_key flat (flat_key_of path index) \<Longrightarrow>
     store_leaf v path index flat = flat @ [(flat_key_of path index, v)]"
  by (simp add: store_leaf_def Let_def dict_setitem_absent)

lemma store_leaf_present:
  "has_key flat (flat_key_of path index) \<Longrightarrow>
     store_leaf v path index flat =
       flat @ [(flat_key_of path index @ ''_''
                  @ str_nat (find_suffix flat (flat_key_of path index) 2), v)]"
  using find_suffix_least [of 2 flat "flat_key_of path index"]
  by (simp add: store_leaf_def Let_def dict_setitem_absent)

lemma store_leaf_appends:
  "\<exists>k. \<not> has_key flat k \<and> store_leaf v path index flat = flat @ [(k, v)]"
proof (cases "has_key flat (flat_key_of path index)")
  case True
  then show ?thesis
    using store_leaf_present [OF True, of v]
      find_suffix_least [of 2 flat "flat_key_of path index"] by blast
next
  case False
  then show ?thesis using store_leaf_absent [OF False, of v] by blast
qed

subsection \<open>Every leaf adds one entry\<close>

lemma recurse_scalar_appends:
  assumes "is_scalar v"
  shows "\<exists>new. recurse v path index flat = flat @ new \<and> length new = leaf_count v
     \<and> (distinct (map fst flat) \<longrightarrow> distinct (map fst (flat @ new)))"
proof -
  have r: "recurse v path index flat = store_leaf v path index flat"
    using assms by (cases v) simp_all
  have l: "leaf_count v = 1"
    using assms by (cases v) simp_all
  obtain k where k: "\<not> has_key flat k" "store_leaf v path index flat = flat @ [(k, v)]"
    using store_leaf_appends by blast
  show ?thesis using r l k by (auto simp: has_key_iff)
qed

lemma recurse_appends:
  "\<exists>new. recurse v path index flat = flat @ new \<and> length new = leaf_count v
     \<and> (distinct (map fst flat) \<longrightarrow> distinct (map fst (flat @ new)))"
  "\<exists>new. recurse_items kvs path flat = flat @ new \<and> length new = leaf_count_items kvs
     \<and> (distinct (map fst flat) \<longrightarrow> distinct (map fst (flat @ new)))"
  "\<exists>new. recurse_elems xs i path flat = flat @ new \<and> length new = leaf_count_elems xs
     \<and> (distinct (map fst flat) \<longrightarrow> distinct (map fst (flat @ new)))"
proof (induction v path index flat and kvs path flat and xs i path flat
    rule: recurse_recurse_items_recurse_elems.induct)
  case (1 kvs path index flat)
  then show ?case by simp
next
  case (2 xs path index flat)
  then show ?case by simp
next
  case "3_1"
  show ?case by (rule recurse_scalar_appends) simp
next
  case "3_2"
  show ?case by (rule recurse_scalar_appends) simp
next
  case "3_3"
  show ?case by (rule recurse_scalar_appends) simp
next
  case "3_4"
  show ?case by (rule recurse_scalar_appends) simp
next
  case "3_5"
  show ?case by (rule recurse_scalar_appends) simp
next
  case (4 path flat)
  then show ?case by simp
next
  case (5 k v kvs path flat)
  from 5(1) obtain new1 where n1: "recurse v (path @ [k]) None flat = flat @ new1"
    "length new1 = leaf_count v"
    "distinct (map fst flat) \<longrightarrow> distinct (map fst (flat @ new1))"
    by blast
  from 5(2) obtain new2 where n2:
    "recurse_items kvs path (recurse v (path @ [k]) None flat)
       = recurse v (path @ [k]) None flat @ new2"
    "length new2 = leaf_count_items kvs"
    "distinct (map fst (recurse v (path @ [k]) None flat))
       \<longrightarrow> distinct (map fst (recurse v (path @ [k]) None flat @ new2))"
    by blast
  have "recurse_items ((k, v) # kvs) path flat = flat @ (new1 @ new2)"
    using n1(1) n2(1) by simp
  moreover have "length (new1 @ new2) = leaf_count_items ((k, v) # kvs)"
    using n1(2) n2(2) by simp
  moreover have "distinct (map fst flat) \<longrightarrow> distinct (map fst (flat @ (new1 @ new2)))"
    using n1(1) n1(3) n2(3) by simp
  ultimately show ?case by blast
next
  case (6 i path flat)
  then show ?case by simp
next
  case (7 item xs i path flat)
  from 7(1) obtain new1 where n1: "recurse item path (Some i) flat = flat @ new1"
    "length new1 = leaf_count item"
    "distinct (map fst flat) \<longrightarrow> distinct (map fst (flat @ new1))"
    by blast
  from 7(2) obtain new2 where n2:
    "recurse_elems xs (Suc i) path (recurse item path (Some i) flat)
       = recurse item path (Some i) flat @ new2"
    "length new2 = leaf_count_elems xs"
    "distinct (map fst (recurse item path (Some i) flat))
       \<longrightarrow> distinct (map fst (recurse item path (Some i) flat @ new2))"
    by blast
  have "recurse_elems (item # xs) i path flat = flat @ (new1 @ new2)"
    using n1(1) n2(1) by simp
  moreover have "length (new1 @ new2) = leaf_count_elems (item # xs)"
    using n1(2) n2(2) by simp
  moreover have "distinct (map fst flat) \<longrightarrow> distinct (map fst (flat @ (new1 @ new2)))"
    using n1(1) n1(3) n2(3) by simp
  ultimately show ?case by blast
qed

text \<open>
  C6: when the key computed for a scalar leaf is present in the row mapping, the leaf
  is stored under that key followed by \<^verbatim>\<open>_s\<close>, with \<open>s\<close> the least number from 2 on
  whose suffixed key is absent; when it is absent the leaf is stored under the key
  itself. Either way the entry is appended, so no entry of the row mapping is
  overwritten: flattening a value leaves the entries that were there as they are and adds
  exactly one entry per scalar leaf, and the keys stay pairwise different.
\<close>

theorem recurse_disambiguates:
  "(is_scalar v \<and> has_key flat (flat_key_of path index) \<longrightarrow>
      (\<exists>s\<ge>2. recurse v path index flat
                 = flat @ [(flat_key_of path index @ ''_'' @ str_nat s, v)]
         \<and> \<not> has_key flat (flat_key_of path index @ ''_'' @ str_nat s)
         \<and> (\<forall>t. 2 \<le> t \<and> t < s \<longrightarrow> has_key flat (flat_key_of path index @ ''_'' @ str_nat t))))
   \<and> (is_scalar v \<and> \<not> has_key flat (flat_key_of path index) \<longrightarrow>
        recurse v path index flat = flat @ [(flat_key_of path index, v)])
   \<and> (\<exists>new. recurse v path index flat = flat @ new \<and> length new = leaf_count v
        \<and> (distinct (map fst flat) \<longrightarrow> distinct (map fst (flat @ new))))"
proof (intro conjI impI)
  assume a: "is_scalar v \<and> has_key flat (flat_key_of path index)"
  then have r: "recurse v path index flat = store_leaf v path index flat"
    by (cases v) simp_all
  let ?s = "find_suffix flat (flat_key_of path index) 2"
  have "2 \<le> ?s
     \<and> recurse v path index flat = flat @ [(flat_key_of path index @ ''_'' @ str_nat ?s, v)]
     \<and> \<not> has_key flat (flat_key_of path index @ ''_'' @ str_nat ?s)
     \<and> (\<forall>t. 2 \<le> t \<and> t < ?s \<longrightarrow> has_key flat (flat_key_of path index @ ''_'' @ str_nat t))"
    using find_suffix_least [of 2 flat "flat_key_of path index"] r a
    by (simp add: store_leaf_present)
  then show "\<exists>s\<ge>2. recurse v path index flat
                 = flat @ [(flat_key_of path index @ ''_'' @ str_nat s, v)]
         \<and> \<not> has_key flat (flat_key_of path index @ ''_'' @ str_nat s)
         \<and> (\<forall>t. 2 \<le> t \<and> t < s \<longrightarrow> has_key flat (flat_key_of path index @ ''_'' @ str_nat t))"
    by blast
next
  assume a: "is_scalar v \<and> \<not> has_key flat (flat_key_of path index)"
  then have "recurse v path index flat = store_leaf v path index flat"
    by (cases v) simp_all
  then show "recurse v path index flat = flat @ [(flat_key_of path index, v)]"
    using a by (simp add: store_leaf_absent)
next
  show "\<exists>new. recurse v path index flat = flat @ new \<and> length new = leaf_count v
        \<and> (distinct (map fst flat) \<longrightarrow> distinct (map fst (flat @ new)))"
    by (rule recurse_appends(1))
qed

theorem recurse_disambiguates_witness:
  "is_scalar (JInt 3)
   \<and> has_key [(''site_name'', JStr ''s''), (''a.b'', JInt 1), (''a.b_2'', JInt 2)]
        (flat_key_of [''a'', ''b''] None)
   \<and> distinct (map fst [(''site_name'', JStr ''s''), (''a.b'', JInt 1), (''a.b_2'', JInt 2)])
   \<and> (\<exists>s\<ge>2. recurse (JInt 3) [''a'', ''b''] None
                [(''site_name'', JStr ''s''), (''a.b'', JInt 1), (''a.b_2'', JInt 2)]
              = [(''site_name'', JStr ''s''), (''a.b'', JInt 1), (''a.b_2'', JInt 2)]
                  @ [(flat_key_of [''a'', ''b''] None @ ''_'' @ str_nat s, JInt 3)])
   \<and> recurse (JInt 3) [''a'', ''b''] None
        [(''site_name'', JStr ''s''), (''a.b'', JInt 1), (''a.b_2'', JInt 2)]
      = [(''site_name'', JStr ''s''), (''a.b'', JInt 1), (''a.b_2'', JInt 2), (''a.b_3'', JInt 3)]"
proof -
  let ?flat = "[(''site_name'', JStr ''s''), (''a.b'', JInt 1), (''a.b_2'', JInt 2)]"
  have h: "is_scalar (JInt 3) \<and> has_key ?flat (flat_key_of [''a'', ''b''] None)"
    by (simp add: flat_key_of_def)
  have d: "distinct (map fst ?flat)" by simp
  have e: "recurse (JInt 3) [''a'', ''b''] None ?flat = ?flat @ [(''a.b_3'', JInt 3)]"
    by (simp add: store_leaf_def flat_key_of_def find_suffix.simps str_nat.simps digit_char_def)
  from recurse_disambiguates [of "JInt 3" ?flat "[''a'', ''b'']" None] h
  have "\<exists>s\<ge>2. recurse (JInt 3) [''a'', ''b''] None ?flat
          = ?flat @ [(flat_key_of [''a'', ''b''] None @ ''_'' @ str_nat s, JInt 3)]"
    by blast
  then show ?thesis using h d e by simp
qed

subsection \<open>The position of a list element that is not a scalar\<close>

text \<open>
  C5 does not hold of \<open>recurse\<close>: the position is passed to the call for the list
  element, but that call passes it on neither to the fields of a mapping nor to the
  elements of a nested list. With \<^verbatim>\<open>{"a": [{"b": 1}]}\<close> the leaf gets the key \<^verbatim>\<open>a.b\<close>; with
  two such elements the second key \<^verbatim>\<open>a.b_2\<close> comes from the collision suffix; with
  \<^verbatim>\<open>{"a": [[1, 2], [3]]}\<close> the key \<^verbatim>\<open>a_1_2\<close> is the first element of the second list. The
  flattener of \<^verbatim>\<open>flatten.py\<close> yields \<^verbatim>\<open>a_1.b\<close>, \<^verbatim>\<open>a_2.b\<close> and \<^verbatim>\<open>a_2_1\<close> there.
\<close>

theorem recurse_drops_position:
  "recurse (JDict [(''a'', JList [JDict [(''b'', JInt 1)]])]) [] None []
     = [(''a.b'', JInt 1)]
   \<and> recurse (JDict [(''a'', JList [JDict [(''b'', JInt 1)], JDict [(''b'', JInt 2)]])]) [] None []
     = [(''a.b'', JInt 1), (''a.b_2'', JInt 2)]
   \<and> recurse (JDict [(''a'', JList [JList [JInt 1, JInt 2], JList [JInt 3]])]) [] None []
     = [(''a_1'', JInt 1), (''a_2'', JInt 2), (''a_1_2'', JInt 3)]
   \<and> flatten_default (JDict [(''a'', JList [JDict [(''b'', JInt 1)], JDict [(''b'', JInt 2)]])])
     = [(''a_1.b'', JInt 1), (''a_2.b'', JInt 2)]
   \<and> flatten_default (JDict [(''a'', JList [JList [JInt 1, JInt 2], JList [JInt 3]])])
     = [(''a_1_1'', JInt 1), (''a_1_2'', JInt 2), (''a_2_1'', JInt 3)]"
  by (simp add: store_leaf_def flat_key_of_def find_suffix.simps str_nat.simps digit_char_def
      flatten_default_def)

section \<open>Properties of the row assemblers\<close>

lemma has_key_dict_update: "has_key d k \<Longrightarrow> has_key (dict_update d e) k"
  unfolding has_key_iff keys_dict_update by simp

lemma email_row_site_name: "has_key (email_row prefix item) ''site_name''"
  by (simp add: email_row_def has_key_dict_update)

lemma recurse_row_site_name:
  "has_key (recurse item [] None [(''site_name'', JStr prefix)]) ''site_name''"
  using recurse_appends(1) [of item "[]" None "[(''site_name'', JStr prefix)]"]
  by (auto simp: has_key_append)

lemma email_flatten_json_fallback:
  "email_submissions obj = Inl e \<Longrightarrow> email_flatten_json obj prefix = [email_row prefix obj]"
  by (simp add: email_flatten_json_def)

lemma flatten_json_non_mapping:
  "\<forall>kvs. obj \<noteq> JDict kvs \<Longrightarrow> flatten_json obj prefix = Inl AttributeError"
  by (cases obj) (simp_all add: flatten_json_def envelope_content_def envelope_result_def)

subsection \<open>At least one row\<close>

text \<open>
  C1, as stated, fails in both implementations: a list that is located and empty gives
  no row. In the e-mail variant that is an empty \<^verbatim>\<open>Response.result.submission\<close>; in
  \<^verbatim>\<open>scholarone_gui_app.py\<close> an empty list is falsy and is passed over by \<^verbatim>\<open>or\<close>, so it is
  located only as the last alternative, a top-level \<^verbatim>\<open>"result": []\<close>.
\<close>

theorem flatten_json_empty_list_counterexample:
  "email_flatten_json
     (JDict [(''Response'', JDict [(''result'', JDict [(''submission'', JList [])])])]) ''siteA''
     = []
   \<and> flatten_json (JDict [(''result'', JList [])]) ''siteA'' = Inr []"
  by (simp add: email_flatten_json_def email_submissions_def flatten_json_def
      envelope_content_def envelope_result_def)

text \<open>
  C1, amended: the e-mail variant returns at least one row record unless
  \<^verbatim>\<open>Response.result.submission\<close> is an empty list, and then it returns none. The other
  variant, when its envelope lookup yields a value, returns at least one row record
  unless that value is an empty list, which it is only as the top-level \<^verbatim>\<open>result\<close>;
  when \<^verbatim>\<open>Response.result.submission\<close> is an empty list it returns the one row of the
  whole payload.
\<close>

theorem flatten_json_rows_nonempty:
  "(email_flatten_json obj prefix = [] \<longleftrightarrow> email_submissions obj = Inr (JList []))
   \<and> (envelope_content obj = Inr content \<longrightarrow>
        (\<exists>rows. flatten_json obj prefix = Inr rows \<and> (rows = [] \<longleftrightarrow> content = JList [])))
   \<and> (envelope_content obj = Inr (JList []) \<longrightarrow>
        py_get obj ''result'' (JDict []) = Inr (JList []))
   \<and> (envelope_result obj = Inr result
        \<and> py_get result ''submission'' JNull = Inr (JList []) \<longrightarrow>
        flatten_json obj prefix = Inr [recurse obj [] None [(''site_name'', JStr prefix)]])"
proof (intro conjI impI)
  show "email_flatten_json obj prefix = [] \<longleftrightarrow> email_submissions obj = Inr (JList [])"
    by (auto simp: email_flatten_json_def split: sum.splits json.splits)
next
  assume "envelope_content obj = Inr content"
  then show "\<exists>rows. flatten_json obj prefix = Inr rows \<and> (rows = [] \<longleftrightarrow> content = JList [])"
    by (cases content) (auto simp: flatten_json_def)
next
  assume "envelope_content obj = Inr (JList [])"
  then show "py_get obj ''result'' (JDict []) = Inr (JList [])"
    by (auto simp: envelope_content_def split: sum.splits if_splits)
next
  assume a: "envelope_result obj = Inr result
        \<and> py_get result ''submission'' JNull = Inr (JList [])"
  then obtain kvs where r: "result = JDict kvs" by (cases result) auto
  have "kvs \<noteq> []" using a r by (auto split: option.splits)
  then have "envelope_content obj = Inr (JDict kvs)"
    using a r by (simp add: envelope_content_def)
  then show "flatten_json obj prefix = Inr [recurse obj [] None [(''site_name'', JStr prefix)]]"
    by (simp add: flatten_json_def)
qed

theorem flatten_json_rows_nonempty_witness:
  "envelope_content (JDict [(''foo'', JStr ''bar'')]) = Inr (JDict [])
   \<and> (\<exists>rows. flatten_json (JDict [(''foo'', JStr ''bar'')]) ''siteB'' = Inr rows \<and> rows \<noteq> [])
   \<and> flatten_json (JDict [(''foo'', JStr ''bar'')]) ''siteB''
       = Inr [[(''site_name'', JStr ''siteB''), (''foo'', JStr ''bar'')]]
   \<and> email_flatten_json (JDict [(''foo'', JStr ''bar'')]) ''siteB''
       = [[(''site_name'', JStr ''siteB''), (''foo'', JStr ''bar'')]]"
proof -
  have c: "envelope_content (JDict [(''foo'', JStr ''bar'')]) = Inr (JDict [])"
    by (simp add: envelope_content_def envelope_result_def)
  from flatten_json_rows_nonempty [of "JDict [(''foo'', JStr ''bar'')]" "''siteB''" "JDict []"] c
  have n: "\<exists>rows. flatten_json (JDict [(''foo'', JStr ''bar'')]) ''siteB'' = Inr rows \<and> rows \<noteq> []"
    by auto
  have f: "flatten_json (JDict [(''foo'', JStr ''bar'')]) ''siteB''
       = Inr [[(''site_name'', JStr ''siteB''), (''foo'', JStr ''bar'')]]"
    by (simp add: flatten_json_def c store_leaf_def flat_key_of_def)
  have e: "email_flatten_json (JDict [(''foo'', JStr ''bar'')]) ''siteB''
       = [[(''site_name'', JStr ''siteB''), (''foo'', JStr ''bar'')]]"
    by (simp add: email_flatten_json_def email_submissions_def email_row_def)
  show ?thesis using c n f e by blast
qed

subsection \<open>A payload that is not the expected envelope\<close>

text \<open>
  C2 does not hold of \<^verbatim>\<open>scholarone_gui_app.py\<close>: its envelope lookup is not inside a
  \<^verbatim>\<open>try\<close>, so a payload that is a list (or any value that is not a mapping), or a
  \<^verbatim>\<open>Response\<close> that is \<^verbatim>\<open>null\<close>, makes \<^verbatim>\<open>flatten_json\<close> raise \<^verbatim>\<open>AttributeError\<close> where the
  e-mail variant falls back to the one row of the whole payload.
\<close>

theorem flatten_json_raises_on_list:
  "flatten_json (JList [JInt 1, JInt 2]) ''siteA'' = Inl AttributeError
   \<and> flatten_json (JDict [(''Response'', JNull)]) ''siteA'' = Inl AttributeError
   \<and> email_flatten_json (JList [JInt 1, JInt 2]) ''siteA''
       = [[(''site_name'', JStr ''siteA''), (''1'', JInt 1), (''2'', JInt 2)]]
   \<and> email_flatten_json (JDict [(''Response'', JNull)]) ''siteA''
       = [[(''site_name'', JStr ''siteA''), (''Response'', JNull)]]"
  by (simp add: flatten_json_def envelope_content_def envelope_result_def
      email_flatten_json_def email_submissions_def email_row_def str_nat.simps digit_char_def)

subsection \<open>The reserved key\<close>

text \<open>
  C8: every row record that either \<^verbatim>\<open>flatten_json\<close> returns contains the key
  \<^verbatim>\<open>site_name\<close>, whether the rows come from the located list or from the fallback.
\<close>

theorem rows_contain_site_name:
  "(\<forall>row \<in> set (email_flatten_json obj prefix). has_key row ''site_name'')
   \<and> (\<forall>rows. flatten_json obj prefix = Inr rows \<longrightarrow>
        (\<forall>row \<in> set rows. has_key row ''site_name''))"
  by (auto simp: email_flatten_json_def flatten_json_def email_row_site_name
      recurse_row_site_name split: sum.splits json.splits)

theorem rows_contain_site_name_witness:
  "email_flatten_json
     (JDict [(''Response'', JDict [(''result'', JDict [(''submission'',
        JList [JDict [(''id'', JInt 1)], JDict [(''id'', JInt 2)]])])])]) ''siteA''
     = [[(''site_name'', JStr ''siteA''), (''id'', JInt 1)],
        [(''site_name'', JStr ''siteA''), (''id'', JInt 2)]]
   \<and> flatten_json
     (JDict [(''Response'', JDict [(''result'', JDict [(''submission'',
        JList [JDict [(''id'', JInt 1)], JDict [(''id'', JInt 2)]])])])]) ''siteA''
     = Inr [[(''site_name'', JStr ''siteA''), (''id'', JInt 1)],
            [(''site_name'', JStr ''siteA''), (''id'', JInt 2)]]
   \<and> has_key [(''site_name'', JStr ''siteA''), (''id'', JInt 2)] ''site_name''"
proof -
  let ?obj = "JDict [(''Response'', JDict [(''result'', JDict [(''submission'',
        JList [JDict [(''id'', JInt 1)], JDict [(''id'', JInt 2)]])])])]"
  let ?rows = "[[(''site_name'', JStr ''siteA''), (''id'', JInt 1)],
        [(''site_name'', JStr ''siteA''), (''id'', JInt 2)]]"
  have e: "email_flatten_json ?obj ''siteA'' = ?rows"
    by (simp add: email_flatten_json_def email_submissions_def email_row_def)
  have f: "flatten_json ?obj ''siteA'' = Inr ?rows"
    by (simp add: flatten_json_def envelope_content_def envelope_result_def
        store_leaf_def flat_key_of_def)
  from rows_contain_site_name [of ?obj "''siteA''"] f
  have "\<forall>row \<in> set ?rows. has_key row ''site_name''"
    by blast
  then have "has_key [(''site_name'', JStr ''siteA''), (''id'', JInt 2)] ''site_name''"
    by simp
  then show ?thesis using e f by blast
qed

section \<open>Properties of the batch planner\<close>

lemma py_range_bounds: "j \<in> set (py_range i stop step) \<Longrightarrow> i \<le> j \<and> j < stop"
proof (induction i stop step rule: py_range.induct)
  case (1 i stop step)
  show ?case
  proof (cases "0 < step \<and> i < stop")
    case True
    then have "j = i \<or> j \<in> set (py_range (i + step) stop step)"
      using 1(2) by (simp add: py_range.simps [of i stop step])
    then show ?thesis using 1(1) True by auto
  next
    case False
    then have "py_range i stop step = []"
      by (simp add: py_range.simps [of i stop step])
    then show ?thesis using 1(2) by simp
  qed
qed

lemma py_range_butlast:
  "j \<in> set (butlast (py_range i stop step)) \<Longrightarrow> j + step < stop"
proof (induction i stop step rule: py_range.induct)
  case (1 i stop step)
  show ?case
  proof (cases "0 < step \<and> i < stop")
    case True
    then have r: "py_range i stop step = i # py_range (i + step) stop step"
      by (simp add: py_range.simps [of i stop step])
    show ?thesis
    proof (cases "py_range (i + step) stop step = []")
      case True
      then show ?thesis using 1(2) r by simp
    next
      case False
      then have "i + step < stop"
        by (auto simp: py_range.simps [of "i + step" stop step] split: if_splits)
      moreover have "j = i \<or> j \<in> set (butlast (py_range (i + step) stop step))"
        using 1(2) r False by simp
      ultimately show ?thesis using 1(1) True by auto
    qed
  next
    case False
    then have "py_range i stop step = []"
      by (simp add: py_range.simps [of i stop step])
    then show ?thesis using 1(2) by simp
  qed
qed

lemma chunks_concat:
  "0 < n \<Longrightarrow> stop = length xs \<Longrightarrow>
     concat (map (\<lambda>i. map Some (py_slice xs i (i + n))) (py_range i stop n))
       = map Some (drop i xs)"
proof (induction i stop n rule: py_range.induct)
  case (1 i stop step)
  show ?case
  proof (cases "i < stop")
    case True
    then have r: "py_range i stop step = i # py_range (i + step) stop step"
      using 1(2) by (simp add: py_range.simps [of i stop step])
    have ih: "concat (map (\<lambda>i. map Some (take step (drop i xs)))
                (py_range (i + step) stop step)) = map Some (drop (i + step) xs)"
      using 1 True by (simp add: py_slice_def)
    have "take step (drop i xs) @ drop (i + step) xs = drop i xs"
      by (metis add.commute append_take_drop_id drop_drop)
    then have "map Some (take step (drop i xs)) @ map Some (drop (i + step) xs)
        = map Some (drop i xs)"
      by (metis map_append)
    then show ?thesis
      by (simp add: r ih py_slice_def)
  next
    case False
    then have "py_range i stop step = []"
      by (simp add: py_range.simps [of i stop step])
    then show ?thesis using False 1(3) by simp
  qed
qed

lemma chunk_ids_partition:
  assumes "0 < n"
  shows "\<exists>bs. chunk_ids ids n = Inr bs \<and> concat bs = map Some ids
           \<and> (\<forall>b \<in> set bs. b \<noteq> [] \<and> int (length b) \<le> n)
           \<and> (\<forall>b \<in> set (butlast bs). int (length b) = n)"
proof -
  let ?f = "\<lambda>i. map Some (py_slice ids i (i + nat n))"
  let ?bs = "map ?f (py_range 0 (length ids) (nat n))"
  have n: "0 < nat n" using assms by simp
  have c: "chunk_ids ids n = Inr ?bs"
    using assms by (simp add: chunk_ids_def)
  have "concat ?bs = map Some (drop 0 ids)"
    using n by (rule chunks_concat) simp
  then have p: "concat ?bs = map Some ids" by simp
  have l: "\<forall>b \<in> set ?bs. b \<noteq> [] \<and> int (length b) \<le> n"
  proof
    fix b
    assume "b \<in> set ?bs"
    then obtain j where j: "j \<in> set (py_range 0 (length ids) (nat n))" "b = ?f j"
      by auto
    then have "j < length ids" using py_range_bounds by blast
    then show "b \<noteq> [] \<and> int (length b) \<le> n"
      using j(2) n by (auto simp: py_slice_def)
  qed
  have e: "\<forall>b \<in> set (butlast ?bs). int (length b) = n"
  proof
    fix b
    assume "b \<in> set (butlast ?bs)"
    then have "b \<in> set (map ?f (butlast (py_range 0 (length ids) (nat n))))"
      by (simp add: map_butlast)
    then obtain j where j: "j \<in> set (butlast (py_range 0 (length ids) (nat n)))" "b = ?f j"
      by auto
    then have "j + nat n < length ids" using py_range_butlast by blast
    then show "int (length b) = n"
      using j(2) n by (simp add: py_slice_def min_def)
  qed
  show ?thesis using c p l e by blast
qed

text \<open>
  C9, as stated, fails: \<^verbatim>\<open>submit_request\<close> cuts the tokens up only for an endpoint that
  has an \<^verbatim>\<open>id_kind\<close>. Its date endpoints are configured with \<^verbatim>\<open>"id_kind": None\<close>, and for
  them a non-empty token sequence yields the sentinel, whose concatenation is not the
  token sequence.
\<close>

theorem batches_without_id_kind_counterexample:
  "submit_request_batches None [''12345''] = Inr [[None]]
   \<and> concat [[None]] \<noteq> map Some [''12345'']"
  by (simp add: submit_request_batches_def truthy_kind_def)

text \<open>
  C9, amended: for an endpoint with an \<^verbatim>\<open>id_kind\<close>, a non-empty token sequence and a
  batch size \<open>n \<ge> 1\<close> (25 in \<^verbatim>\<open>submit_request\<close>), the batches concatenated are the token
  sequence, every batch is non-empty and of length at most \<open>n\<close>, and every batch but
  the last is of length \<open>n\<close>. For an empty token sequence both planners yield the
  single sentinel \<^verbatim>\<open>[[None]]\<close>, and so does \<^verbatim>\<open>submit_request\<close> for an endpoint whose
  \<^verbatim>\<open>id_kind\<close> is \<^verbatim>\<open>None\<close>. Nothing is stated about \<^verbatim>\<open>run_query\<close> with tokens for an
  endpoint that has no \<^verbatim>\<open>id_kind\<close>: the e-mail variant configures none for its ID
  endpoints, although its comments say that their IDs are sent.
\<close>

theorem batches_partition:
  "(truthy_kind id_kind \<and> ids \<noteq> [] \<and> 0 < n \<longrightarrow>
      (\<exists>bs. run_query_batches id_kind ids n = Inr bs \<and> concat bs = map Some ids
         \<and> (\<forall>b \<in> set bs. b \<noteq> [] \<and> int (length b) \<le> n)
         \<and> (\<forall>b \<in> set (butlast bs). int (length b) = n)))
   \<and> (truthy_kind id_kind \<and> ids \<noteq> [] \<longrightarrow>
      (\<exists>bs. submit_request_batches id_kind ids = Inr bs \<and> concat bs = map Some ids
         \<and> (\<forall>b \<in> set bs. b \<noteq> [] \<and> int (length b) \<le> 25)
         \<and> (\<forall>b \<in> set (butlast bs). int (length b) = 25)))
   \<and> (ids = [] \<longrightarrow>
        run_query_batches id_kind ids n = Inr [[None]]
        \<and> submit_request_batches id_kind ids = Inr [[None]])
   \<and> (\<not> truthy_kind id_kind \<longrightarrow> submit_request_batches id_kind ids = Inr [[None]])"
proof (intro conjI impI)
  assume "truthy_kind id_kind \<and> ids \<noteq> [] \<and> 0 < n"
  then show "\<exists>bs. run_query_batches id_kind ids n = Inr bs \<and> concat bs = map Some ids
         \<and> (\<forall>b \<in> set bs. b \<noteq> [] \<and> int (length b) \<le> n)
         \<and> (\<forall>b \<in> set (butlast bs). int (length b) = n)"
    using chunk_ids_partition [of n ids] by (simp add: run_query_batches_def)
next
  assume "truthy_kind id_kind \<and> ids \<noteq> []"
  then show "\<exists>bs. submit_request_batches id_kind ids = Inr bs \<and> concat bs = map Some ids
         \<and> (\<forall>b \<in> set bs. b \<noteq> [] \<and> int (length b) \<le> 25)
         \<and> (\<forall>b \<in> set (butlast bs). int (length b) = 25)"
    using chunk_ids_partition [of 25 ids] by (simp add: submit_request_batches_def)
next
  assume "ids = []"
  then show "run_query_batches id_kind ids n = Inr [[None]]"
    by (simp add: run_query_batches_def)
next
  assume "ids = []"
  then show "submit_request_batches id_kind ids = Inr [[None]]"
    by (simp add: submit_request_batches_def)
next
  assume "\<not> truthy_kind id_kind"
  then show "submit_request_batches id_kind ids = Inr [[None]]"
    by (simp add: submit_request_batches_def)
qed

theorem batches_partition_witness:
  "truthy_kind (Some ''emails'') \<and> [''1'', ''2'', ''3'', ''4'', ''5''] \<noteq> [] \<and> (0::int) < 2
   \<and> (\<exists>bs. run_query_batches (Some ''emails'') [''1'', ''2'', ''3'', ''4'', ''5''] 2 = Inr bs
        \<and> concat bs = map Some [''1'', ''2'', ''3'', ''4'', ''5''])
   \<and> run_query_batches (Some ''emails'') [''1'', ''2'', ''3'', ''4'', ''5''] 2
       = Inr [[Some ''1'', Some ''2''], [Some ''3'', Some ''4''], [Some ''5'']]
   \<and> run_query_batches (Some ''emails'') [] 2 = Inr [[None]]
   \<and> \<not> truthy_kind None
   \<and> submit_request_batches None [''2024-01-01''] = Inr [[None]]
   \<and> submit_request_batches (Some ''submissionIds'') [''1'', ''2''] = Inr [[Some ''1'', Some ''2'']]"
proof -
  have h: "truthy_kind (Some ''emails'') \<and> [''1'', ''2'', ''3'', ''4'', ''5''] \<noteq> [] \<and> (0::int) < 2"
    by (simp add: truthy_kind_def)
  from batches_partition [of "Some ''emails''" "[''1'', ''2'', ''3'', ''4'', ''5'']" 2] h
  have p: "\<exists>bs. run_query_batches (Some ''emails'') [''1'', ''2'', ''3'', ''4'', ''5''] 2 = Inr bs
        \<and> concat bs = map Some [''1'', ''2'', ''3'', ''4'', ''5'']"
    by blast
  have e: "run_query_batches (Some ''emails'') [''1'', ''2'', ''3'', ''4'', ''5''] 2
       = Inr [[Some ''1'', Some ''2''], [Some ''3'', Some ''4''], [Some ''5'']]"
    by (simp add: run_query_batches_def truthy_kind_def chunk_ids_def py_slice_def
        py_range.simps)
  from batches_partition [of "Some ''emails''" "[]" 2]
  have s: "run_query_batches (Some ''emails'') [] 2 = Inr [[None]]"
    by simp
  have k: "\<not> truthy_kind None"
    by (simp add: truthy_kind_def)
  from batches_partition [of None "[''2024-01-01'']" 2] k
  have t: "submit_request_batches None [''2024-01-01''] = Inr [[None]]"
    by blast
  have q: "submit_request_batches (Some ''submissionIds'') [''1'', ''2''] = Inr [[Some ''1'', Some ''2'']]"
    by (simp add: submit_request_batches_def truthy_kind_def chunk_ids_def py_slice_def
        py_range.simps)
  show ?thesis using h p e s k t q by blast
qed

end
